theory Spec2Isabelle
  imports Main "HOL-Library.Word"
begin

section \<open>Data model\<close>

text \<open>
  The program \<open>q15_axpy_challenge.c\<close> works on C arrays of \<open>int16_t\<close> that it reaches
  through pointers, with one element count \<open>n\<close> of type \<open>int\<close> for all of them. The
  memory is modelled as a store of 16-bit cells; a pointer to \<open>int16_t\<close> is the
  number of a cell, and \<open>p[i]\<close> is the cell \<open>p + i\<close>. A kernel takes the store and
  returns the store after its writes, so that overlapping buffers behave as they do in C.

  An \<open>int16_t\<close> is a \<open>16 word\<close> and an \<open>int32_t\<close> a \<open>32 word\<close>, both read with
  \<open>sint\<close>. The loop counters \<open>i\<close> and the count \<open>n\<close> are C \<open>int\<close>s that only
  ever move inside \<open>0 .. n\<close>, where no wrap-around can happen; they are modelled as
  \<open>int\<close>.
\<close>

type_synonym heap = "int \<Rightarrow> 16 word"

text \<open>The contents of the buffer of \<open>n\<close> cells at \<open>p\<close>, as a list.\<close>

definition buffer :: "heap \<Rightarrow> int \<Rightarrow> int \<Rightarrow> 16 word list" where
  "buffer h p n = map (\<lambda>k. h (p + int k)) [0..<nat n]"

section \<open>Scalar reference\<close>

text \<open>
  \<^verbatim>\<open>
  static inline int16_t sat_q15_scalar(int32_t v) {
      if (v >  32767) return  32767;
      if (v < -32768) return -32768;
      return (int16_t)v;
  }
  \<close>
\<close>

definition sat_q15_scalar :: "32 word \<Rightarrow> 16 word" where
  "sat_q15_scalar v =
     (if 32767 <s v then 32767
      else if v <s - 32768 then - 32768
      else scast v)"

text \<open>
  The accumulator of one element,
  \<^verbatim>\<open>int32_t acc = (int32_t)a[i] + (int32_t)alpha * (int32_t)b[i];\<close>
  with the arguments in the order of the expression.
\<close>

definition axpy_acc :: "16 word \<Rightarrow> 16 word \<Rightarrow> 16 word \<Rightarrow> 32 word" where
  "axpy_acc ai alpha bi = scast ai + scast alpha * scast bi"

text \<open>
  \<^verbatim>\<open>
  void q15_axpy_ref(const int16_t *a, const int16_t *b,
                    int16_t *y, int n, int16_t alpha)
  {
      for (int i = 0; i < n; ++i) {
          int32_t acc = (int32_t)a[i] + (int32_t)alpha * (int32_t)b[i];
          y[i] = sat_q15_scalar(acc);
      }
  }
  \<close>
  The loop from counter \<open>i\<close> on, and the function, which starts it at 0.
\<close>

function (domintros) q15_axpy_ref_loop ::
  "heap \<Rightarrow> int \<Rightarrow> int \<Rightarrow> int \<Rightarrow> int \<Rightarrow> 16 word \<Rightarrow> int \<Rightarrow> heap" where
  "q15_axpy_ref_loop h a b y n alpha i =
     (if i < n
      then q15_axpy_ref_loop
             (h(y + i := sat_q15_scalar (axpy_acc (h (a + i)) alpha (h (b + i)))))
             a b y n alpha (i + 1)
      else h)"
  by pat_completeness auto
termination
  by (relation "measure (\<lambda>(h, a, b, y, n, alpha, i). nat (n - i))") auto

definition q15_axpy_ref ::
  "heap \<Rightarrow> int \<Rightarrow> int \<Rightarrow> int \<Rightarrow> int \<Rightarrow> 16 word \<Rightarrow> heap" where
  "q15_axpy_ref h a b y n alpha = q15_axpy_ref_loop h a b y n alpha 0"

text \<open>The saturation policy in the words of the specification, on unbounded integers.\<close>

definition spec_saturate :: "int \<Rightarrow> int" where
  "spec_saturate v = (if v > 32767 then 32767 else if v < - 32768 then - 32768 else v)"

section \<open>Verifier\<close>

text \<open>
  \<^verbatim>\<open>
  static int verify_equal(const int16_t *ref, const int16_t *test, int n, int32_t *max_diff) {
      int ok = 1;
      int32_t md = 0;
      for (int i = 0; i < n; ++i) {
          int32_t d = (int32_t)ref[i] - (int32_t)test[i];
          if (d < 0) d = -d;
          if (d > md) md = d;
          if (d != 0) ok = 0;
      }
      *max_diff = md;
      return ok;
  }
  \<close>
  The result is the pair of the returned \<open>ok\<close> and the value stored in
  \<open>*max_diff\<close>.
\<close>

definition abs_diff32 :: "16 word \<Rightarrow> 16 word \<Rightarrow> 32 word" where
  "abs_diff32 r t = (let d = scast r - scast t :: 32 word in if d <s 0 then - d else d)"

function (domintros) verify_equal_loop ::
  "heap \<Rightarrow> int \<Rightarrow> int \<Rightarrow> int \<Rightarrow> 32 word \<Rightarrow> 32 word \<Rightarrow> int \<Rightarrow> 32 word \<times> 32 word" where
  "verify_equal_loop h ref test n ok md i =
     (if i < n
      then verify_equal_loop h ref test n
             (if abs_diff32 (h (ref + i)) (h (test + i)) \<noteq> 0 then 0 else ok)
             (if md <s abs_diff32 (h (ref + i)) (h (test + i))
              then abs_diff32 (h (ref + i)) (h (test + i)) else md)
             (i + 1)
      else (ok, md))"
  by pat_completeness auto
termination
  by (relation "measure (\<lambda>(h, ref, test, n, ok, md, i). nat (n - i))") auto

definition verify_equal :: "heap \<Rightarrow> int \<Rightarrow> int \<Rightarrow> int \<Rightarrow> 32 word \<times> 32 word" where
  "verify_equal h ref test n = verify_equal_loop h ref test n 1 0 0"

text \<open>
  The absolute differences of the specification: for every index, the distance between the
  two elements read as signed numbers.
\<close>

definition abs_diffs :: "16 word list \<Rightarrow> 16 word list \<Rightarrow> int set" where
  "abs_diffs xs ys = set (map2 (\<lambda>x y. \<bar>sint x - sint y\<bar>) xs ys)"

section \<open>Vector kernel\<close>

text \<open>
  \<open>q15_axpy_rvv\<close> is compiled in one of two ways, chosen by the preprocessor test
  \<^verbatim>\<open>#if !defined(__riscv) || !defined(__riscv_vector) || (__riscv_v_intrinsic < 1000000)\<close>.
  A platform records the three macros the test reads (an undefined
  \<open>__riscv_v_intrinsic\<close> counts as 0 in \<open>#if\<close>) and what the second branch depends
  on and the C text does not fix: \<open>VLMAX\<close> for 16-bit elements at \<open>LMUL = 2\<close>, the
  fixed-point rounding mode held in the \<open>vxrm\<close> register, and the 32-bit lanes that a
  32-bit intrinsic sees when it is handed a group of 16-bit lanes. The last one is there
  because the branch passes the \<open>vint16m2_t\<close> value \<open>vb\<close> where a \<open>vint32m4_t\<close> is
  expected, and C has no conversion between the two types: the model gives that step
  no meaning of its own.
\<close>

datatype rounding_mode = RNU | RNE | RDN | ROD

record platform =
  def_riscv :: bool
  def_riscv_vector :: bool
  riscv_v_intrinsic :: nat
  vlmax_e16m2 :: nat
  vxrm :: rounding_mode
  i16m2_as_i32m4 :: "16 word list \<Rightarrow> 32 word list"

subsection \<open>The intrinsics of \<open>riscv_vector.h\<close>\<close>

text \<open>
  The intrinsics are not part of the program; they are modelled after the RISC-V vector
  specification, a vector register group being the list of its first \<open>vl\<close> lanes.
  \<open>vsetvl_e16m2\<close> grants the requested length up to \<open>VLMAX\<close>. \<open>vle16\<close> and \<open>vse16\<close>
  load and store \<open>vl\<close> consecutive cells. \<open>vmul.vx\<close>, \<open>vwadd.vx\<close> and \<open>vadd.vv\<close> work
  lane by lane on 32-bit lanes, \<open>vwadd.vx\<close> sign-extending its 16-bit operands first.
  \<open>vnclip.wx\<close> shifts each 32-bit lane right arithmetically by the low five bits of the
  shift operand, adds the rounding increment selected by \<open>vxrm\<close>, and saturates the
  result to 16 bits.
\<close>

definition vsetvl_e16m2 :: "platform \<Rightarrow> nat \<Rightarrow> nat" where
  "vsetvl_e16m2 P avl = min avl (vlmax_e16m2 P)"

definition vle16_v_i16m2 :: "heap \<Rightarrow> int \<Rightarrow> nat \<Rightarrow> 16 word list" where
  "vle16_v_i16m2 h p vl = map (\<lambda>k. h (p + int k)) [0..<vl]"

definition vmul_vx_i32m4 :: "32 word list \<Rightarrow> 32 word \<Rightarrow> nat \<Rightarrow> 32 word list" where
  "vmul_vx_i32m4 op1 op2 vl = map (\<lambda>x. x * op2) (take vl op1)"

definition vwadd_vx_i32m4 :: "16 word list \<Rightarrow> 16 word \<Rightarrow> nat \<Rightarrow> 32 word list" where
  "vwadd_vx_i32m4 op1 op2 vl = map (\<lambda>x. scast x + scast op2) (take vl op1)"

definition vadd_vv_i32m4 :: "32 word list \<Rightarrow> 32 word list \<Rightarrow> nat \<Rightarrow> 32 word list" where
  "vadd_vv_i32m4 op1 op2 vl = map (\<lambda>(x, y). x + y) (take vl (zip op1 op2))"

fun round_incr :: "rounding_mode \<Rightarrow> 32 word \<Rightarrow> nat \<Rightarrow> int" where
  "round_incr rm v 0 = 0"
| "round_incr RNU v (Suc d) = of_bool (bit v d)"
| "round_incr RNE v (Suc d) = of_bool (bit v d \<and> (take_bit d v \<noteq> 0 \<or> bit v (Suc d)))"
| "round_incr RDN v (Suc d) = 0"
| "round_incr ROD v (Suc d) = of_bool (\<not> bit v (Suc d) \<and> take_bit (Suc d) v \<noteq> 0)"

definition roundoff_signed :: "rounding_mode \<Rightarrow> 32 word \<Rightarrow> nat \<Rightarrow> int" where
  "roundoff_signed rm v d = sint v div 2 ^ d + round_incr rm v d"

definition vnclip_sat :: "int \<Rightarrow> 16 word" where
  "vnclip_sat x =
     (if x > 32767 then 32767 else if x < - 32768 then - 32768 else word_of_int x)"

definition vnclip_wx_i16m2 ::
  "rounding_mode \<Rightarrow> 32 word list \<Rightarrow> nat \<Rightarrow> nat \<Rightarrow> 16 word list" where
  "vnclip_wx_i16m2 rm op1 shift vl =
     map (\<lambda>v. vnclip_sat (roundoff_signed rm v (shift mod 32))) (take vl op1)"

fun vse16_v_i16m2 :: "heap \<Rightarrow> int \<Rightarrow> 16 word list \<Rightarrow> nat \<Rightarrow> heap" where
  "vse16_v_i16m2 h p [] vl = h"
| "vse16_v_i16m2 h p (v # vs) 0 = h"
| "vse16_v_i16m2 h p (v # vs) (Suc vl) = vse16_v_i16m2 (h(p := v)) (p + 1) vs vl"

subsection \<open>The kernel\<close>

text \<open>
  \<^verbatim>\<open>
      int32_t vl;  // Vector length
      for (int i = 0; i < n; i += vl) {
          vl = vsetvl_e16m2(n - i);
          vint16m2_t va = vle16_v_i16m2(&a[i], vl);
          vint16m2_t vb = vle16_v_i16m2(&b[i], vl);
          vint32m4_t vprod = vmul_vx_i32m4(vb, alpha, vl);
          vint32m4_t va_ext = vwadd_vx_i32m4(va, 0, vl);
          vint32m4_t vacc = vadd_vv_i32m4(va_ext, vprod, vl);
          vint16m2_t vy = vnclip_wx_i16m2(vacc, 15, vl);
          vse16_v_i16m2(&y[i], vy, vl);
      }
  \<close>
  \<open>q15_axpy_rvv_body\<close> is one pass through the body with vector length \<open>vl\<close>. The
  \<open>int16_t\<close> argument \<open>alpha\<close> of the 32-bit multiply is converted to \<open>int32_t\<close> as C
  converts integer arguments; the lanes the multiply sees for \<open>vb\<close> are the platform's
  \<open>i16m2_as_i32m4\<close>.

  With \<open>VLMAX = 0\<close> the loop would never advance, so the loop is a partial function:
  \<open>None\<close> stands for a run that does not return.
\<close>

definition q15_axpy_rvv_body ::
  "platform \<Rightarrow> heap \<Rightarrow> int \<Rightarrow> int \<Rightarrow> int \<Rightarrow> 16 word \<Rightarrow> int \<Rightarrow> nat \<Rightarrow> heap" where
  "q15_axpy_rvv_body P h a b y alpha i vl =
     (let va = vle16_v_i16m2 h (a + i) vl;
          vb = vle16_v_i16m2 h (b + i) vl;
          vprod = vmul_vx_i32m4 (i16m2_as_i32m4 P vb) (scast alpha) vl;
          va_ext = vwadd_vx_i32m4 va 0 vl;
          vacc = vadd_vv_i32m4 va_ext vprod vl;
          vy = vnclip_wx_i16m2 (vxrm P) vacc 15 vl
      in vse16_v_i16m2 h (y + i) vy vl)"

partial_function (option) q15_axpy_rvv_loop ::
  "platform \<Rightarrow> heap \<Rightarrow> int \<Rightarrow> int \<Rightarrow> int \<Rightarrow> int \<Rightarrow> 16 word \<Rightarrow> int \<Rightarrow> heap option" where
  "q15_axpy_rvv_loop P h a b y n alpha i =
     (if i < n
      then q15_axpy_rvv_loop P
             (q15_axpy_rvv_body P h a b y alpha i (vsetvl_e16m2 P (nat (n - i))))
             a b y n alpha (i + int (vsetvl_e16m2 P (nat (n - i))))
      else Some h)"

text \<open>
  \<^verbatim>\<open>
  void q15_axpy_rvv(const int16_t *a, const int16_t *b,
                    int16_t *y, int n, int16_t alpha)
  {
  #if !defined(__riscv) || !defined(__riscv_vector) || (__riscv_v_intrinsic < 1000000)
      // Fallback (keeps correctness off-target)
      q15_axpy_ref(a, b, y, n, alpha);
  #else
      ... the loop above ...
  #endif
  }
  \<close>
\<close>

definition scalar_fallback :: "platform \<Rightarrow> bool" where
  "scalar_fallback P =
     (\<not> def_riscv P \<or> \<not> def_riscv_vector P \<or> riscv_v_intrinsic P < 1000000)"

definition q15_axpy_rvv ::
  "platform \<Rightarrow> heap \<Rightarrow> int \<Rightarrow> int \<Rightarrow> int \<Rightarrow> int \<Rightarrow> 16 word \<Rightarrow> heap option" where
  "q15_axpy_rvv P h a b y n alpha =
     (if scalar_fallback P
      then Some (q15_axpy_ref h a b y n alpha)
      else q15_axpy_rvv_loop P h a b y n alpha 0)"

section \<open>The operations of the specification\<close>

text \<open>
  The contracts of the specification, in its words, on sequences that carry their own
  length: the scalar kernel and the verifier fail with \<open>InvalidInput\<close> when the two
  sequences differ in length. They are here to be compared with the C functions.
\<close>

datatype error = InvalidInput

definition spec_axpy_scalar ::
  "16 word list \<Rightarrow> 16 word list \<Rightarrow> 16 word \<Rightarrow> error + 16 word list" where
  "spec_axpy_scalar a b alpha =
     (if length a \<noteq> length b then Inl InvalidInput
      else Inr (map2 (\<lambda>x y. word_of_int (spec_saturate (sint x + sint alpha * sint y))) a b))"

definition spec_verify :: "16 word list \<Rightarrow> 16 word list \<Rightarrow> error + bool \<times> int" where
  "spec_verify reference candidate =
     (if length reference \<noteq> length candidate then Inl InvalidInput
      else Inr (abs_diffs reference candidate \<subseteq> {0},
                Max (insert 0 (abs_diffs reference candidate))))"

section \<open>Arithmetic of one element\<close>

lemma sint16_bounds: "- 32768 \<le> sint (x :: 16 word) \<and> sint x \<le> 32767"
  using sint_ge [of x] sint_lt [of x] by simp

lemma sint_scast_16_32: "sint (scast (x :: 16 word) :: 32 word) = sint x"
  by (rule sint_up_scast) (simp add: is_up)

lemma prod_bounds:
  fixes x y :: int
  assumes "- 32768 \<le> x" "x \<le> 32767" "- 32768 \<le> y" "y \<le> 32767"
  shows "- 1073741824 \<le> x * y \<and> x * y \<le> 1073741824"
proof -
  have "\<bar>x\<bar> \<le> 32768" "\<bar>y\<bar> \<le> 32768" using assms by auto
  then have "\<bar>x\<bar> * \<bar>y\<bar> \<le> 32768 * 32768"
    by (intro mult_mono) auto
  then have le: "\<bar>x * y\<bar> \<le> 1073741824" by (simp add: abs_mult)
  then show ?thesis by auto
qed

lemma acc_bounds:
  "- 2147483648 \<le> sint (ai :: 16 word) + sint (alpha :: 16 word) * sint (bi :: 16 word) \<and>
   sint ai + sint alpha * sint bi \<le> 2147483647"
  using sint16_bounds [of ai] sint16_bounds [of alpha] sint16_bounds [of bi]
    prod_bounds [of "sint alpha" "sint bi"] by linarith

lemma axpy_acc_wi:
  "axpy_acc ai alpha bi = word_of_int (sint ai + sint alpha * sint bi)"
  unfolding axpy_acc_def scast_eq wi_hom_mult wi_hom_add ..

lemma sint_axpy_acc: "sint (axpy_acc ai alpha bi) = sint ai + sint alpha * sint bi"
proof -
  have "sint (axpy_acc ai alpha bi) = signed_take_bit 31 (sint ai + sint alpha * sint bi)"
    unfolding axpy_acc_wi by (simp only: sint_sbintrunc') simp
  also have "\<dots> = sint ai + sint alpha * sint bi"
    using acc_bounds [of ai alpha bi]
    by (intro signed_take_bit_int_eq_self) auto
  finally show ?thesis .
qed

lemma sint_scast_32_16:
  "- 32768 \<le> sint (v :: 32 word) \<Longrightarrow> sint v \<le> 32767 \<Longrightarrow> sint (scast v :: 16 word) = sint v"
  by (simp add: signed_scast_eq signed_take_bit_int_eq_self)

lemma sint_sat_q15_scalar: "sint (sat_q15_scalar v) = spec_saturate (sint v)"
  by (simp add: sat_q15_scalar_def spec_saturate_def word_sless_alt sint_scast_32_16)

lemma sat_q15_scalar_scast: "sat_q15_scalar (scast (x :: 16 word)) = x"
proof -
  have "sint (sat_q15_scalar (scast x)) = sint x"
    using sint16_bounds [of x]
    by (simp add: sint_sat_q15_scalar spec_saturate_def sint_scast_16_32)
  then show ?thesis by (rule signed_word_eqI)
qed

lemma axpy_acc_alpha0: "axpy_acc ai 0 bi = scast ai"
  by (simp add: axpy_acc_def)

section \<open>The scalar loop\<close>

text \<open>
  The loop started at \<open>i\<close> writes the cells \<open>y + i .. y + n - 1\<close> and no other.
  The cell \<open>y + j\<close> ends up holding the saturated accumulator of the original \<open>a[j]\<close>
  and \<open>b[j]\<close> provided no earlier iteration has overwritten them.
\<close>

declare q15_axpy_ref_loop.simps [simp del]

lemma ref_loop_frame:
  "p < y + i \<or> y + n \<le> p \<Longrightarrow> q15_axpy_ref_loop h a b y n alpha i p = h p"
proof (induction h a b y n alpha i rule: q15_axpy_ref_loop.induct)
  case (1 h a b y n alpha i)
  let ?h = "h(y + i := sat_q15_scalar (axpy_acc (h (a + i)) alpha (h (b + i))))"
  show ?case
  proof (cases "i < n")
    case True
    from "1.prems" True have out: "p < y + (i + 1) \<or> y + n \<le> p" and ne: "p \<noteq> y + i"
      by auto
    have "q15_axpy_ref_loop h a b y n alpha i p = q15_axpy_ref_loop ?h a b y n alpha (i + 1) p"
      using True by (subst q15_axpy_ref_loop.simps) simp
    also have "\<dots> = ?h p" using "1.IH" [OF True out] .
    also have "\<dots> = h p" using ne by simp
    finally show ?thesis .
  next
    case False
    then show ?thesis by (subst q15_axpy_ref_loop.simps) simp
  qed
qed

lemma ref_loop_value:
  assumes "\<forall>j k. i \<le> k \<and> k < j \<and> j < n \<longrightarrow> a + j \<noteq> y + k"
    and "alpha = 0 \<or> (\<forall>j k. i \<le> k \<and> k < j \<and> j < n \<longrightarrow> b + j \<noteq> y + k)"
    and "i \<le> j" and "j < n"
  shows "q15_axpy_ref_loop h a b y n alpha i (y + j) =
         sat_q15_scalar (axpy_acc (h (a + j)) alpha (h (b + j)))"
  using assms
proof (induction h a b y n alpha i rule: q15_axpy_ref_loop.induct)
  case (1 h a b y n alpha i)
  let ?h = "h(y + i := sat_q15_scalar (axpy_acc (h (a + i)) alpha (h (b + i))))"
  from 1 have lt: "i < n" by simp
  then have unf: "q15_axpy_ref_loop h a b y n alpha i =
                  q15_axpy_ref_loop ?h a b y n alpha (i + 1)"
    by (subst q15_axpy_ref_loop.simps) simp
  show ?case
  proof (cases "j = i")
    case True
    then show ?thesis
      by (simp add: unf ref_loop_frame)
  next
    case False
    with 1 have ij: "i + 1 \<le> j" by simp
    have disa: "\<forall>j k. i + 1 \<le> k \<and> k < j \<and> j < n \<longrightarrow> a + j \<noteq> y + k"
      using "1.prems"(1) by auto
    have disb: "alpha = 0 \<or> (\<forall>j k. i + 1 \<le> k \<and> k < j \<and> j < n \<longrightarrow> b + j \<noteq> y + k)"
      using "1.prems"(2) by auto
    have "q15_axpy_ref_loop ?h a b y n alpha (i + 1) (y + j) =
          sat_q15_scalar (axpy_acc (?h (a + j)) alpha (?h (b + j)))"
      using "1.IH" [OF lt disa disb ij "1.prems"(4)] .
    moreover have "?h (a + j) = h (a + j)"
      using "1.prems"(1) ij "1.prems"(4) by auto
    moreover have "axpy_acc x alpha (?h (b + j)) = axpy_acc x alpha (h (b + j))" for x
    proof (cases "alpha = 0")
      case True
      then show ?thesis by (simp add: axpy_acc_alpha0)
    next
      case False
      with "1.prems"(2) ij "1.prems"(4) have "b + j \<noteq> y + i" by auto
      then show ?thesis by simp
    qed
    ultimately show ?thesis by (simp add: unf)
  qed
qed

lemma disjoint_no_clobber:
  fixes p y n :: int
  assumes "{p..<p + n} \<inter> {y..<y + n} = {}"
  shows "\<forall>j k. 0 \<le> k \<and> k < j \<and> j < n \<longrightarrow> p + j \<noteq> y + k"
proof (intro allI impI notI)
  fix j k assume jk: "0 \<le> k \<and> k < j \<and> j < n" and eq: "p + j = y + k"
  then have "p + j \<in> {p..<p + n} \<inter> {y..<y + n}" by auto
  with assms show False by simp
qed

lemma ref_value:
  assumes "{a..<a + n} \<inter> {y..<y + n} = {}"
    and "alpha = 0 \<or> {b..<b + n} \<inter> {y..<y + n} = {}"
    and "0 \<le> j" and "j < n"
  shows "q15_axpy_ref h a b y n alpha (y + j) =
         sat_q15_scalar (axpy_acc (h (a + j)) alpha (h (b + j)))"
  unfolding q15_axpy_ref_def
  using assms by (intro ref_loop_value disjoint_no_clobber) auto

lemma ref_alpha0_buffer:
  assumes "{a..<a + n} \<inter> {y..<y + n} = {}"
  shows "buffer (q15_axpy_ref h a b y n 0) y n = buffer h a n"
  unfolding buffer_def
proof (rule map_cong [OF refl])
  fix k assume "k \<in> set [0..<nat n]"
  then have k: "0 \<le> int k" "int k < n" by auto
  show "q15_axpy_ref h a b y n 0 (y + int k) = h (a + int k)"
    using ref_value [OF assms _ k, of 0 b h]
    by (simp add: axpy_acc_alpha0 sat_q15_scalar_scast)
qed

section \<open>Properties of the scalar kernel\<close>

text \<open>
  C3. For all 16-bit \<open>a[i]\<close>, \<open>b[i]\<close> and \<open>alpha\<close> the 32-bit accumulator holds
  the exact value \<open>a[i] + alpha * b[i]\<close>: the mathematical sum lies in the signed 32-bit
  range, and reading the machine result as a signed number gives that sum. At the extreme
  \<open>alpha = -32768\<close>, \<open>b[i] = -32768\<close>, \<open>a[i] = 32767\<close> the accumulator is
  \<open>2^30 + 32767\<close>.
\<close>

theorem axpy_acc_no_wraparound:
  "sint (axpy_acc ai alpha bi) = sint ai + sint alpha * sint bi \<and>
   - (2 ^ 31) \<le> sint ai + sint alpha * sint bi \<and>
   sint ai + sint alpha * sint bi < 2 ^ 31 \<and>
   sint (axpy_acc 32767 (- 32768) (- 32768)) = 2 ^ 30 + 32767"
proof (intro conjI)
  show "sint (axpy_acc ai alpha bi) = sint ai + sint alpha * sint bi"
    by (rule sint_axpy_acc)
  show "- (2 ^ 31) \<le> sint ai + sint alpha * sint bi"
    using acc_bounds [of ai alpha bi] by simp
  show "sint ai + sint alpha * sint bi < 2 ^ 31"
    using acc_bounds [of ai alpha bi] by simp
  show "sint (axpy_acc 32767 (- 32768) (- 32768)) = 2 ^ 30 + 32767"
    by (simp add: axpy_acc_def)
qed

text \<open>
  C2. When the output buffer overlaps neither input buffer, then for every index
  \<open>0 \<le> i < n\<close> the scalar kernel leaves in \<open>y[i]\<close> the saturation of the 32-bit
  accumulator of \<open>a[i]\<close>, \<open>alpha\<close> and \<open>b[i]\<close>; as a number, \<open>y[i]\<close> is
  \<open>a[i] + alpha * b[i]\<close> clamped to 32767 from above and to -32768 from below, and
  unchanged in between.
\<close>

theorem q15_axpy_ref_elementwise:
  assumes "{a..<a + n} \<inter> {y..<y + n} = {}"
    and "{b..<b + n} \<inter> {y..<y + n} = {}"
    and "0 \<le> i" and "i < n"
  shows "q15_axpy_ref h a b y n alpha (y + i) =
           sat_q15_scalar (axpy_acc (h (a + i)) alpha (h (b + i))) \<and>
         sint (q15_axpy_ref h a b y n alpha (y + i)) =
           spec_saturate (sint (h (a + i)) + sint alpha * sint (h (b + i)))"
proof -
  have v: "q15_axpy_ref h a b y n alpha (y + i) =
           sat_q15_scalar (axpy_acc (h (a + i)) alpha (h (b + i)))"
    using assms by (intro ref_value) auto
  then show ?thesis
    by (simp add: sint_sat_q15_scalar sint_axpy_acc)
qed

theorem q15_axpy_ref_elementwise_witness:
  "{0..<0 + 2} \<inter> {4..<4 + 2} = ({} :: int set) \<and>
   {2..<2 + 2} \<inter> {4..<4 + 2} = ({} :: int set) \<and> (0 :: int) \<le> 1 \<and> (1 :: int) < 2 \<and>
   sint (q15_axpy_ref ((\<lambda>_. 0)(0 := 100, 1 := 200, 2 := 3, 3 := 20000)) 0 2 4 2 2 (4 + 1)) =
     32767"
proof -
  have d1: "{0..<0 + 2} \<inter> {4..<4 + 2} = ({} :: int set)" by simp
  have d2: "{2..<2 + 2} \<inter> {4..<4 + 2} = ({} :: int set)" by simp
  have i0: "(0 :: int) \<le> 1" and i1: "(1 :: int) < 2" by simp_all
  show ?thesis
    using d1 d2 q15_axpy_ref_elementwise [OF d1 d2 i0 i1,
        of "(\<lambda>_. 0)(0 := 100, 1 := 200, 2 := 3, 3 := 20000)" 2, THEN conjunct2]
    by (simp add: spec_saturate_def)
qed

text \<open>
  C4. On the one-element buffers \<open>[32767]\<close>, \<open>[32767]\<close> with \<open>alpha = 32767\<close> the
  accumulator of the scalar kernel is 1073709056, above the 16-bit range; truncated to 16
  bits it would be -32768, and the kernel stores the saturated value \<open>[32767]\<close>. On
  \<open>[-32768]\<close>, \<open>[-32768]\<close> with \<open>alpha = 32767\<close> the accumulator is -1073741824, below
  the range; truncated it would be 0, and the kernel stores \<open>[-32768]\<close>. This holds
  wherever the three buffers lie.
\<close>

theorem q15_axpy_ref_saturation_boundary:
  "sint (axpy_acc 32767 32767 32767) = 1073709056 \<and>
   scast (axpy_acc 32767 32767 32767) = (- 32768 :: 16 word) \<and>
   sat_q15_scalar (axpy_acc 32767 32767 32767) = 32767 \<and>
   buffer (q15_axpy_ref (h(a := 32767, b := 32767)) a b y 1 32767) y 1 =
     [sat_q15_scalar (axpy_acc 32767 32767 32767)] \<and>
   buffer (q15_axpy_ref (h(a := 32767, b := 32767)) a b y 1 32767) y 1 = [32767] \<and>
   sint (axpy_acc (- 32768) 32767 (- 32768)) = - 1073741824 \<and>
   scast (axpy_acc (- 32768) 32767 (- 32768)) = (0 :: 16 word) \<and>
   sat_q15_scalar (axpy_acc (- 32768) 32767 (- 32768)) = - 32768 \<and>
   buffer (q15_axpy_ref (h(a := - 32768, b := - 32768)) a b y 1 32767) y 1 =
     [sat_q15_scalar (axpy_acc (- 32768) 32767 (- 32768))] \<and>
   buffer (q15_axpy_ref (h(a := - 32768, b := - 32768)) a b y 1 32767) y 1 = [- 32768]"
proof -
  have p: "sint (axpy_acc 32767 32767 32767) = 1073709056"
    by (simp add: sint_axpy_acc)
  have n: "sint (axpy_acc (- 32768) 32767 (- 32768)) = - 1073741824"
    by (simp add: sint_axpy_acc)
  have pw: "scast (axpy_acc 32767 32767 32767) = (- 32768 :: 16 word)"
    by (simp add: axpy_acc_def)
  have nw: "scast (axpy_acc (- 32768) 32767 (- 32768)) = (0 :: 16 word)"
    by (simp add: axpy_acc_def)
  have ps: "sat_q15_scalar (axpy_acc 32767 32767 32767) = 32767"
    by (simp add: sat_q15_scalar_def word_sless_alt p)
  have ns: "sat_q15_scalar (axpy_acc (- 32768) 32767 (- 32768)) = - 32768"
    by (simp add: sat_q15_scalar_def word_sless_alt n)
  have pk: "buffer (q15_axpy_ref (h(a := 32767, b := 32767)) a b y 1 32767) y 1 =
            [sat_q15_scalar (axpy_acc 32767 32767 32767)]"
    by (simp add: buffer_def q15_axpy_ref_def q15_axpy_ref_loop.simps)
  have nk: "buffer (q15_axpy_ref (h(a := - 32768, b := - 32768)) a b y 1 32767) y 1 =
            [sat_q15_scalar (axpy_acc (- 32768) 32767 (- 32768))]"
    by (simp add: buffer_def q15_axpy_ref_def q15_axpy_ref_loop.simps)
  show ?thesis
    by (simp only: p n pw nw pk nk ps ns simp_thms)
qed

text \<open>
  C6. With \<open>alpha = 0\<close> and an all-zero buffer \<open>b\<close>, the scalar kernel copies \<open>a\<close>
  to the output buffer unchanged, when the output buffer does not overlap \<open>a\<close>.
\<close>

theorem q15_axpy_ref_identity:
  assumes "{a..<a + n} \<inter> {y..<y + n} = {}"
    and "buffer h b n = replicate (nat n) 0"
  shows "buffer (q15_axpy_ref h a b y n 0) y n = buffer h a n"
  using assms(1) by (rule ref_alpha0_buffer)

theorem q15_axpy_ref_identity_witness:
  "{0..<0 + 3} \<inter> {6..<6 + 3} = ({} :: int set) \<and>
   buffer ((\<lambda>_. 0)(0 := 7, 1 := - 32768, 2 := 32767)) 3 3 = replicate (nat 3) 0 \<and>
   buffer (q15_axpy_ref ((\<lambda>_. 0)(0 := 7, 1 := - 32768, 2 := 32767)) 0 3 6 3 0) 6 3 =
     [7, - 32768, 32767]"
proof -
  have d: "{0..<0 + 3} \<inter> {6..<6 + 3} = ({} :: int set)" by simp
  have z: "buffer ((\<lambda>_. 0)(0 := 7, 1 := - 32768, 2 := 32767)) 3 3 = replicate (nat 3) 0"
    by (simp add: buffer_def upt_rec numeral_3_eq_3)
  have a: "buffer ((\<lambda>_. 0)(0 := 7, 1 := - 32768, 2 := 32767)) 0 3 = [7, - 32768, 32767]"
    by (simp add: buffer_def upt_rec numeral_3_eq_3)
  show ?thesis
    using d z q15_axpy_ref_identity [OF d z] by (simp only: a simp_thms)
qed

text \<open>
  C10. With \<open>alpha = 0\<close> the scalar kernel copies \<open>a\<close> to the output buffer
  unchanged whatever \<open>b\<close> holds, when the output buffer does not overlap \<open>a\<close>: the
  accumulator of an element is then the sign-extended \<open>a[i]\<close> alone.
\<close>

theorem q15_axpy_ref_zero_gain:
  assumes "{a..<a + n} \<inter> {y..<y + n} = {}"
  shows "buffer (q15_axpy_ref h a b y n 0) y n = buffer h a n \<and>
         axpy_acc ai 0 bi = scast ai"
  using ref_alpha0_buffer [OF assms] by (simp add: axpy_acc_alpha0)

theorem q15_axpy_ref_zero_gain_witness:
  "{0..<0 + 2} \<inter> {6..<6 + 2} = ({} :: int set) \<and>
   buffer (q15_axpy_ref ((\<lambda>_. 0)(0 := 7, 1 := - 32768, 3 := 555, 4 := - 1)) 0 3 6 2 0) 6 2 =
     [7, - 32768]"
proof -
  have d: "{0..<0 + 2} \<inter> {6..<6 + 2} = ({} :: int set)" by simp
  have a: "buffer ((\<lambda>_. 0)(0 := 7, 1 := - 32768, 3 := 555, 4 := - 1)) 0 2 = [7, - 32768]"
    by (simp add: buffer_def upt_rec numeral_2_eq_2)
  show ?thesis
    using d q15_axpy_ref_zero_gain [OF d, of "(\<lambda>_. 0)(0 := 7, 1 := - 32768, 3 := 555, 4 := - 1)" 3]
    by (simp only: a simp_thms)
qed

section \<open>The verifier\<close>

text \<open>
  The buffer that the loop still has to read at counter \<open>i\<close> is
  \<open>buffer h (p + i) (n - i)\<close>; one iteration takes its head.
\<close>

lemma buffer_Cons:
  assumes "i < n"
  shows "buffer h (p + i) (n - i) = h (p + i) # buffer h (p + (i + 1)) (n - (i + 1))"
proof -
  let ?m = "nat (n - (i + 1))"
  have m: "nat (n - i) = Suc ?m" using assms by arith
  have u: "[0..<Suc ?m] = 0 # map Suc [0..<?m]"
    by (simp only: map_Suc_upt upt_conv_Cons [OF zero_less_Suc])
  have "buffer h (p + i) (n - i) = map (\<lambda>k. h (p + i + int k)) (0 # map Suc [0..<?m])"
    unfolding buffer_def m u ..
  also have "\<dots> = h (p + i) # map (\<lambda>k. h (p + (i + 1) + int k)) [0..<?m]"
    by (simp add: o_def ac_simps del: upt_Suc)
  finally show ?thesis unfolding buffer_def .
qed

lemma buffer_Nil: "\<not> i < n \<Longrightarrow> buffer h (p + i) (n - i) = []"
  by (simp add: buffer_def)

lemma scast_diff_wi:
  "(scast (r :: 16 word) - scast (t :: 16 word) :: 32 word) = word_of_int (sint r - sint t)"
  unfolding scast_eq wi_hom_sub ..

lemma sint_wi32_small:
  "- 2147483648 \<le> k \<Longrightarrow> k \<le> 2147483647 \<Longrightarrow> sint (word_of_int k :: 32 word) = k"
  by (simp only: sint_sbintrunc') (simp add: signed_take_bit_int_eq_self)

lemma sint_abs_diff32: "sint (abs_diff32 r t) = \<bar>sint r - sint t\<bar>"
proof -
  let ?k = "sint r - sint t"
  have b: "- 65535 \<le> ?k" "?k \<le> 65535"
    using sint16_bounds [of r] sint16_bounds [of t] by auto
  have d: "sint (word_of_int ?k :: 32 word) = ?k"
    using b by (intro sint_wi32_small) auto
  have nd: "sint (- word_of_int ?k :: 32 word) = - ?k"
    unfolding wi_hom_neg using b by (intro sint_wi32_small) auto
  show ?thesis
    unfolding abs_diff32_def scast_diff_wi Let_def
    by (simp only: word_sless_alt d nd sint_0 split: if_split) simp
qed

lemma abs_diff32_eq_0: "abs_diff32 r t = 0 \<longleftrightarrow> r = t"
proof -
  have "abs_diff32 r t = 0 \<longleftrightarrow> sint (abs_diff32 r t) = 0"
    by (simp add: signed_eq_0_iff)
  also have "\<dots> \<longleftrightarrow> sint r = sint t"
    by (simp add: sint_abs_diff32)
  also have "\<dots> \<longleftrightarrow> r = t"
    by (auto intro: signed_word_eqI)
  finally show ?thesis .
qed

lemma Max_insert_max:
  fixes m x :: int
  assumes "finite S"
  shows "Max (insert (max m x) S) = Max (insert m (insert x S))"
proof (cases "S = {}")
  case True
  then show ?thesis by (simp add: max.commute)
next
  case False
  with assms show ?thesis by (simp add: max.assoc)
qed

declare verify_equal_loop.simps [simp del]

lemma verify_loop_result:
  "fst (verify_equal_loop h r t n ok md i) =
     (if buffer h (r + i) (n - i) = buffer h (t + i) (n - i) then ok else 0) \<and>
   sint (snd (verify_equal_loop h r t n ok md i)) =
     Max (insert (sint md) (abs_diffs (buffer h (r + i) (n - i)) (buffer h (t + i) (n - i))))"
proof (induction h r t n ok md i rule: verify_equal_loop.induct)
  case (1 h r t n ok md i)
  show ?case
  proof (cases "i < n")
    case False
    then show ?thesis
      by (subst (1 2) verify_equal_loop.simps) (simp add: buffer_Nil abs_diffs_def)
  next
    case True
    let ?d = "abs_diff32 (h (r + i)) (h (t + i))"
    let ?ok = "if ?d \<noteq> 0 then 0 else ok"
    let ?md = "if md <s ?d then ?d else md"
    have unf: "verify_equal_loop h r t n ok md i = verify_equal_loop h r t n ?ok ?md (i + 1)"
      using True by (subst verify_equal_loop.simps) simp
    note IH = "1.IH" [OF True]
    have smd: "sint ?md = max (sint md) \<bar>sint (h (r + i)) - sint (h (t + i))\<bar>"
      by (simp add: word_sless_alt sint_abs_diff32 max_def)
    have fin: "finite (abs_diffs xs ys)" for xs ys by (simp add: abs_diffs_def)
    show ?thesis
      unfolding unf
      apply (simp only: IH smd buffer_Cons [OF True] Max_insert_max [OF fin])
      apply (simp add: abs_diffs_def abs_diff32_eq_0)
      done
  qed
qed

lemma length_buffer: "length (buffer h p n) = nat n"
  by (simp add: buffer_def)

lemma buffers_eq_iff_diffs:
  "buffer h r n = buffer h t n \<longleftrightarrow> abs_diffs (buffer h r n) (buffer h t n) \<subseteq> {0}"
proof -
  have len: "length (buffer h r n) = length (buffer h t n)"
    by (simp add: length_buffer)
  have e: "\<bar>sint x - sint y\<bar> = 0 \<longleftrightarrow> x = y" for x y :: "16 word"
    by (auto intro: signed_word_eqI)
  have "abs_diffs (buffer h r n) (buffer h t n) \<subseteq> {0} \<longleftrightarrow>
        (\<forall>(x, y) \<in> set (zip (buffer h r n) (buffer h t n)). \<bar>sint x - sint y\<bar> = 0)"
    unfolding abs_diffs_def by auto
  also have "\<dots> \<longleftrightarrow> buffer h r n = buffer h t n"
    unfolding e by (simp add: list_eq_iff_zip_eq len)
  finally show ?thesis by simp
qed

lemma verify_equal_result:
  "fst (verify_equal h r t n) = (if buffer h r n = buffer h t n then 1 else 0) \<and>
   sint (snd (verify_equal h r t n)) =
     Max (insert 0 (abs_diffs (buffer h r n) (buffer h t n)))"
  using verify_loop_result [of h r t n 1 0 0] by (simp add: verify_equal_def)

lemma verify_equal_same:
  assumes "buffer h r n = buffer h t n"
  shows "verify_equal h r t n = (1, 0)"
proof -
  from assms have "abs_diffs (buffer h r n) (buffer h t n) \<subseteq> {0}"
    by (simp only: buffers_eq_iff_diffs)
  then have eq: "insert 0 (abs_diffs (buffer h r n) (buffer h t n)) = {0}" by auto
  have "sint (snd (verify_equal h r t n)) =
        Max (insert 0 (abs_diffs (buffer h r n) (buffer h t n)))"
    by (simp only: verify_equal_result)
  also have "\<dots> = 0" unfolding eq by simp
  finally have "snd (verify_equal h r t n) = 0" by (simp add: signed_eq_0_iff)
  moreover have "fst (verify_equal h r t n) = 1"
    using assms by (simp add: verify_equal_result)
  ultimately show ?thesis by (simp add: prod_eq_iff)
qed

text \<open>
  C5. \<open>verify_equal\<close> returns \<open>ok = 1\<close> if every elementwise absolute difference is
  zero, which is the case exactly when the two buffers hold the same elements, and
  \<open>ok = 0\<close> otherwise. The value it stores in \<open>*max_diff\<close> is the greatest of the
  absolute differences of the elements read as signed numbers, and 0 when there is none.
  Buffers with equal contents, and so a buffer compared with itself, give \<open>(1, 0)\<close>;
  \<open>[0]\<close> against \<open>[-32768]\<close> gives \<open>(0, 32768)\<close>.
\<close>

theorem verify_equal_correct:
  "fst (verify_equal h r t n) =
     (if abs_diffs (buffer h r n) (buffer h t n) \<subseteq> {0} then 1 else 0) \<and>
   (abs_diffs (buffer h r n) (buffer h t n) \<subseteq> {0} \<longleftrightarrow> buffer h r n = buffer h t n) \<and>
   sint (snd (verify_equal h r t n)) =
     Max (insert 0 (abs_diffs (buffer h r n) (buffer h t n))) \<and>
   (buffer h r n = buffer h t n \<longrightarrow> verify_equal h r t n = (1, 0)) \<and>
   verify_equal h x x n = (1, 0) \<and>
   verify_equal ((\<lambda>_. 0)(1 := - 32768)) 0 1 1 = (0, 32768)"
proof (intro conjI impI)
  show "fst (verify_equal h r t n) =
     (if abs_diffs (buffer h r n) (buffer h t n) \<subseteq> {0} then 1 else 0)"
    by (simp only: verify_equal_result buffers_eq_iff_diffs)
  show "abs_diffs (buffer h r n) (buffer h t n) \<subseteq> {0} \<longleftrightarrow> buffer h r n = buffer h t n"
    by (simp only: buffers_eq_iff_diffs)
  show "sint (snd (verify_equal h r t n)) =
     Max (insert 0 (abs_diffs (buffer h r n) (buffer h t n)))"
    by (simp only: verify_equal_result)
  show "verify_equal h r t n = (1, 0)" if "buffer h r n = buffer h t n"
    using that by (rule verify_equal_same)
  show "verify_equal h x x n = (1, 0)"
    by (rule verify_equal_same) simp
  show "verify_equal ((\<lambda>_. 0)(1 := - 32768)) 0 1 1 = (0, 32768)"
    by (simp add: verify_equal_def verify_equal_loop.simps abs_diff32_def word_sless_alt)
qed

theorem verify_equal_correct_witness:
  "buffer ((\<lambda>_. 0)(0 := 5, 1 := 9, 2 := 5, 3 := 9)) 0 2 =
   buffer ((\<lambda>_. 0)(0 := 5, 1 := 9, 2 := 5, 3 := 9)) 2 2 \<and>
   verify_equal ((\<lambda>_. 0)(0 := 5, 1 := 9, 2 := 5, 3 := 9)) 0 2 2 = (1, 0)"
proof -
  have e: "buffer ((\<lambda>_. 0)(0 := 5, 1 := 9, 2 := 5, 3 := 9)) 0 2 =
           buffer ((\<lambda>_. 0)(0 := 5, 1 := 9, 2 := 5, 3 := 9)) 2 2"
    by (simp add: buffer_def upt_rec numeral_2_eq_2)
  show ?thesis
    using e verify_equal_correct [of "(\<lambda>_. 0)(0 := 5, 1 := 9, 2 := 5, 3 := 9)" 0 2 2]
    by blast
qed

section \<open>The vector loop\<close>

text \<open>
  A vector store of \<open>vl\<close> lanes at \<open>p\<close> touches the cells \<open>p .. p + vl - 1\<close> at most,
  and \<open>vsetvl\<close> never grants more than the elements that remain. So, when \<open>VLMAX\<close> is
  positive, the loop started at \<open>i\<close> returns and has written inside
  \<open>y + i .. y + n - 1\<close> only.
\<close>

lemma vse16_frame:
  "q < p \<or> p + int vl \<le> q \<Longrightarrow> vse16_v_i16m2 h p vs vl q = h q"
proof (induction h p vs vl rule: vse16_v_i16m2.induct)
  case (1 h p vl)
  then show ?case by simp
next
  case (2 h p v vs)
  then show ?case by simp
next
  case (3 h p v vs vl)
  from "3.prems" have out: "q < p + 1 \<or> p + 1 + int vl \<le> q" and ne: "q \<noteq> p" by auto
  have "vse16_v_i16m2 h p (v # vs) (Suc vl) q = vse16_v_i16m2 (h(p := v)) (p + 1) vs vl q"
    by simp
  also have "\<dots> = (h(p := v)) q" using out by (rule "3.IH")
  also have "\<dots> = h q" using ne by simp
  finally show ?case .
qed

lemma rvv_body_frame:
  "q < y + i \<or> y + i + int vl \<le> q \<Longrightarrow> q15_axpy_rvv_body P h a b y alpha i vl q = h q"
  unfolding q15_axpy_rvv_body_def Let_def by (rule vse16_frame)

lemma rvv_loop_done: "\<not> i < n \<Longrightarrow> q15_axpy_rvv_loop P h a b y n alpha i = Some h"
  by (subst q15_axpy_rvv_loop.simps) simp

lemma rvv_loop_step:
  "i < n \<Longrightarrow> q15_axpy_rvv_loop P h a b y n alpha i =
     q15_axpy_rvv_loop P
       (q15_axpy_rvv_body P h a b y alpha i (vsetvl_e16m2 P (nat (n - i))))
       a b y n alpha (i + int (vsetvl_e16m2 P (nat (n - i))))"
  by (subst q15_axpy_rvv_loop.simps) simp

lemma rvv_loop_frame:
  assumes "0 < vlmax_e16m2 P"
  shows "\<exists>h'. q15_axpy_rvv_loop P h a b y n alpha i = Some h' \<and>
              (\<forall>q. q < y + i \<or> y + n \<le> q \<longrightarrow> h' q = h q)"
proof (induction "nat (n - i)" arbitrary: h i rule: less_induct)
  case less
  show ?case
  proof (cases "i < n")
    case False
    then show ?thesis by (simp add: rvv_loop_done)
  next
    case True
    let ?vl = "vsetvl_e16m2 P (nat (n - i))"
    let ?h = "q15_axpy_rvv_body P h a b y alpha i ?vl"
    have vl: "0 < ?vl" "int ?vl \<le> n - i"
      using True assms by (auto simp: vsetvl_e16m2_def)
    then have dec: "nat (n - (i + int ?vl)) < nat (n - i)" by linarith
    from less [OF dec, of ?h] obtain h' where
      h': "q15_axpy_rvv_loop P ?h a b y n alpha (i + int ?vl) = Some h'"
      and fr: "\<forall>q. q < y + (i + int ?vl) \<or> y + n \<le> q \<longrightarrow> h' q = ?h q"
      by blast
    have "h' q = h q" if q: "q < y + i \<or> y + n \<le> q" for q
    proof -
      from q vl have "h' q = ?h q" using fr by auto
      also from q vl have "\<dots> = h q" by (intro rvv_body_frame) auto
      finally show ?thesis .
    qed
    then show ?thesis by (simp add: rvv_loop_step [OF True] h')
  qed
qed

lemma rvv_frame:
  assumes "scalar_fallback P \<or> 0 < vlmax_e16m2 P"
  shows "\<exists>h'. q15_axpy_rvv P h a b y n alpha = Some h' \<and>
              (\<forall>q. q < y \<or> y + n \<le> q \<longrightarrow> h' q = h q)"
proof (cases "scalar_fallback P")
  case True
  then show ?thesis
    by (simp add: q15_axpy_rvv_def q15_axpy_ref_def ref_loop_frame)
next
  case False
  with assms have "0 < vlmax_e16m2 P" by simp
  from rvv_loop_frame [OF this, of h a b y n alpha 0] False
  show ?thesis by (simp add: q15_axpy_rvv_def)
qed

lemma buffer_cong:
  assumes "\<forall>q. p \<le> q \<and> q < p + n \<longrightarrow> h' q = h q"
  shows "buffer h' p n = buffer h p n"
  unfolding buffer_def using assms by (intro map_cong [OF refl]) auto

lemma frame_buffer:
  assumes "\<forall>q. q < y \<or> y + n \<le> q \<longrightarrow> h' q = h q"
    and "{p..<p + n} \<inter> {y..<y + n} = {}"
  shows "buffer h' p n = buffer h p n"
proof (rule buffer_cong, intro allI impI)
  fix q assume q: "p \<le> q \<and> q < p + n"
  then have "q \<in> {p..<p + n}" by simp
  with assms(2) have "q \<notin> {y..<y + n}" by blast
  with assms(1) show "h' q = h q" by auto
qed

section \<open>Properties of the vector kernel\<close>



text \<open>
  C7. With \<open>n = 0\<close> the scalar kernel returns the memory as it was, the vector kernel
  returns and leaves the memory as it was on every platform, the output buffer of length
  0 is empty, and the verifier returns \<open>(1, 0)\<close>.
\<close>

theorem zero_length_ok:
  "q15_axpy_ref h a b y 0 alpha = h \<and>
   q15_axpy_rvv P h a b y 0 alpha = Some h \<and>
   buffer h y 0 = [] \<and>
   verify_equal h r t 0 = (1, 0)"
  by (simp add: q15_axpy_ref_def q15_axpy_ref_loop.simps q15_axpy_rvv_def rvv_loop_done
      buffer_def verify_equal_def verify_equal_loop.simps)

theorem zero_length_ok_witness:
  "q15_axpy_ref ((\<lambda>_. 0)(0 := 7)) 0 1 2 0 3 = (\<lambda>_. 0)(0 := 7) \<and>
   q15_axpy_rvv \<lparr>def_riscv = True, def_riscv_vector = True,
       riscv_v_intrinsic = 1000000, vlmax_e16m2 = 16, vxrm = RNU,
       i16m2_as_i32m4 = map scast\<rparr>
     ((\<lambda>_. 0)(0 := 7)) 0 1 2 0 3 = Some ((\<lambda>_. 0)(0 := 7)) \<and>
   q15_axpy_rvv \<lparr>def_riscv = False, def_riscv_vector = False,
       riscv_v_intrinsic = 0, vlmax_e16m2 = 0, vxrm = RNU,
       i16m2_as_i32m4 = map scast\<rparr>
     ((\<lambda>_. 0)(0 := 7)) 0 1 2 0 3 = Some ((\<lambda>_. 0)(0 := 7)) \<and>
   verify_equal ((\<lambda>_. 0)(0 := 7)) 0 1 0 = (1, 0)"
  using zero_length_ok [of "(\<lambda>_. 0)(0 := 7)" 0 1 2 3 _ 0 1]
  by blast

text \<open>
  C9. When the output buffer overlaps neither input buffer, the scalar kernel leaves the
  contents of \<open>a\<close> and \<open>b\<close> as they were and changes no cell outside
  \<open>y .. y + n - 1\<close>; the vector kernel, on a platform that falls back to the scalar
  kernel or has \<open>VLMAX > 0\<close>, returns and does the same. The state of the model is the
  data memory.
\<close>

theorem kernels_frame:
  assumes "scalar_fallback P \<or> 0 < vlmax_e16m2 P"
    and "{a..<a + n} \<inter> {y..<y + n} = {}"
    and "{b..<b + n} \<inter> {y..<y + n} = {}"
  shows "buffer (q15_axpy_ref h a b y n alpha) a n = buffer h a n \<and>
         buffer (q15_axpy_ref h a b y n alpha) b n = buffer h b n \<and>
         (\<forall>q. q \<notin> {y..<y + n} \<longrightarrow> q15_axpy_ref h a b y n alpha q = h q) \<and>
         (\<exists>h'. q15_axpy_rvv P h a b y n alpha = Some h' \<and>
               buffer h' a n = buffer h a n \<and>
               buffer h' b n = buffer h b n \<and>
               (\<forall>q. q \<notin> {y..<y + n} \<longrightarrow> h' q = h q))"
proof -
  have fr: "\<forall>q. q < y \<or> y + n \<le> q \<longrightarrow> q15_axpy_ref h a b y n alpha q = h q"
    by (simp add: q15_axpy_ref_def ref_loop_frame)
  from rvv_frame [OF assms(1), of h a b y n alpha] obtain h' where
    h': "q15_axpy_rvv P h a b y n alpha = Some h'"
    and fv: "\<forall>q. q < y \<or> y + n \<le> q \<longrightarrow> h' q = h q"
    by blast
  have fr': "\<forall>q. q \<notin> {y..<y + n} \<longrightarrow> q15_axpy_ref h a b y n alpha q = h q"
    using fr by auto
  have fv': "\<forall>q. q \<notin> {y..<y + n} \<longrightarrow> h' q = h q"
    using fv by auto
  show ?thesis
    using frame_buffer [OF fr assms(2)] frame_buffer [OF fr assms(3)]
      frame_buffer [OF fv assms(2)] frame_buffer [OF fv assms(3)] fr' fv' h'
    by blast
qed

theorem kernels_frame_witness:
  "(scalar_fallback \<lparr>def_riscv = True, def_riscv_vector = True,
       riscv_v_intrinsic = 1000000, vlmax_e16m2 = 2, vxrm = RNU,
       i16m2_as_i32m4 = map scast\<rparr> \<or>
    0 < vlmax_e16m2 \<lparr>def_riscv = True, def_riscv_vector = True,
       riscv_v_intrinsic = 1000000, vlmax_e16m2 = 2, vxrm = RNU,
       i16m2_as_i32m4 = map scast\<rparr>) \<and>
   {0..<0 + 3} \<inter> {6..<6 + 3} = ({} :: int set) \<and>
   {3..<3 + 3} \<inter> {6..<6 + 3} = ({} :: int set) \<and>
   buffer (q15_axpy_ref ((\<lambda>_. 0)(0 := 7, 4 := 9)) 0 3 6 3 5) 0 3 =
     buffer ((\<lambda>_. 0)(0 := 7, 4 := 9)) 0 3 \<and>
   (\<exists>h'. q15_axpy_rvv \<lparr>def_riscv = True, def_riscv_vector = True,
       riscv_v_intrinsic = 1000000, vlmax_e16m2 = 2, vxrm = RNU,
       i16m2_as_i32m4 = map scast\<rparr>
       ((\<lambda>_. 0)(0 := 7, 4 := 9)) 0 3 6 3 5 = Some h' \<and>
     buffer h' 0 3 = buffer ((\<lambda>_. 0)(0 := 7, 4 := 9)) 0 3 \<and>
     buffer h' 3 3 = buffer ((\<lambda>_. 0)(0 := 7, 4 := 9)) 3 3)"
proof -
  let ?P = "\<lparr>def_riscv = True, def_riscv_vector = True,
       riscv_v_intrinsic = 1000000, vlmax_e16m2 = 2, vxrm = RNU,
       i16m2_as_i32m4 = map scast\<rparr>"
  have p: "scalar_fallback ?P \<or> 0 < vlmax_e16m2 ?P" by simp
  have d1: "{0..<0 + 3} \<inter> {6..<6 + 3} = ({} :: int set)" by simp
  have d2: "{3..<3 + 3} \<inter> {6..<6 + 3} = ({} :: int set)" by simp
  show ?thesis
    using p d1 d2 kernels_frame [OF p d1 d2, of "(\<lambda>_. 0)(0 := 7, 4 := 9)" 5]
    by blast
qed

section \<open>Errors\<close>

text \<open>
  \<open>q15_axpy_ref\<close> and \<open>q15_axpy_rvv\<close> return \<open>void\<close>, \<open>verify_equal\<close> returns the
  flag \<open>ok\<close>, and none of them tests its arguments: the two buffers come as pointers
  with one count \<open>n\<close>, so a call cannot say that they differ in length. The loops of
  the scalar kernel and of the verifier end for every argument: every argument is in the
  domain of the recursion.
\<close>

lemma ref_loop_dom: "q15_axpy_ref_loop_dom (h, a, b, y, n, alpha, i)"
proof (induction "nat (n - i)" arbitrary: h i rule: less_induct)
  case less
  show ?case
  proof (rule q15_axpy_ref_loop.domintros)
    assume "i < n"
    then have "nat (n - (i + 1)) < nat (n - i)" by simp
    then show "q15_axpy_ref_loop_dom
        (h(y + i := sat_q15_scalar (axpy_acc (h (a + i)) alpha (h (b + i)))),
         a, b, y, n, alpha, i + 1)"
      by (rule less)
  qed
qed

lemma verify_loop_dom: "verify_equal_loop_dom (h, r, t, n, ok, md, i)"
proof (induction "nat (n - i)" arbitrary: ok md i rule: less_induct)
  case less
  have step: "verify_equal_loop_dom (h, r, t, n, ok', md', i + 1)" if "i < n" for ok' md'
  proof (rule less)
    from that show "nat (n - (i + 1)) < nat (n - i)" by simp
  qed
  show ?case
    by (rule verify_equal_loop.domintros; rule step; assumption)
qed

lemma ref_nonpos: "n \<le> 0 \<Longrightarrow> q15_axpy_ref h a b y n alpha = h"
  by (simp add: q15_axpy_ref_def q15_axpy_ref_loop.simps)

lemma rvv_nonpos: "n \<le> 0 \<Longrightarrow> q15_axpy_rvv P h a b y n alpha = Some h"
  by (simp add: q15_axpy_rvv_def ref_nonpos rvv_loop_done)

lemma verify_nonpos: "n \<le> 0 \<Longrightarrow> verify_equal h r t n = (1, 0)"
  by (simp add: verify_equal_def verify_equal_loop.simps)

text \<open>
  C8 as stated does not hold. A caller has the two-element buffer \<open>[1, 2]\<close> in cells 0
  and 1 and the one-element buffer \<open>[5]\<close> in cell 2; cell 3, which holds 77, belongs to
  neither. For these two sequences the kernel and the verifier of the specification
  answer \<open>InvalidInput\<close>. The C kernels, called on the two buffers with \<open>n = 2\<close> and
  the output at cell 10, return with the output \<open>[16, 233]\<close>, where
  \<open>233 = 2 + 3 * 77\<close> comes from the cell after the shorter buffer; the C verifier,
  called on them with \<open>n = 2\<close>, returns the pair \<open>(0, 75)\<close>.
\<close>

theorem unequal_lengths_not_detected:
  "buffer ((\<lambda>_. 0)(0 := 1, 1 := 2, 2 := 5, 3 := 77)) 0 2 = [1, 2] \<and>
   buffer ((\<lambda>_. 0)(0 := 1, 1 := 2, 2 := 5, 3 := 77)) 2 1 = [5] \<and>
   spec_axpy_scalar [1, 2] [5] 3 = Inl InvalidInput \<and>
   spec_verify [1, 2] [5] = Inl InvalidInput \<and>
   buffer (q15_axpy_ref ((\<lambda>_. 0)(0 := 1, 1 := 2, 2 := 5, 3 := 77)) 0 2 10 2 3) 10 2 =
     [16, 233] \<and>
   q15_axpy_rvv \<lparr>def_riscv = False, def_riscv_vector = False, riscv_v_intrinsic = 0,
       vlmax_e16m2 = 0, vxrm = RNU, i16m2_as_i32m4 = map scast\<rparr>
     ((\<lambda>_. 0)(0 := 1, 1 := 2, 2 := 5, 3 := 77)) 0 2 10 2 3 =
     Some (q15_axpy_ref ((\<lambda>_. 0)(0 := 1, 1 := 2, 2 := 5, 3 := 77)) 0 2 10 2 3) \<and>
   verify_equal ((\<lambda>_. 0)(0 := 1, 1 := 2, 2 := 5, 3 := 77)) 0 2 2 = (0, 75)"
proof (intro conjI)
  show "buffer ((\<lambda>_. 0)(0 := 1, 1 := 2, 2 := 5, 3 := 77)) 0 2 = [1, 2]"
    by (simp add: buffer_def upt_rec numeral_2_eq_2)
  show "buffer ((\<lambda>_. 0)(0 := 1, 1 := 2, 2 := 5, 3 := 77)) 2 1 = [5]"
    by (simp add: buffer_def)
  show "spec_axpy_scalar [1, 2] [5] 3 = Inl InvalidInput"
    by (simp add: spec_axpy_scalar_def)
  show "spec_verify [1, 2] [5] = Inl InvalidInput"
    by (simp add: spec_verify_def)
  show "buffer (q15_axpy_ref ((\<lambda>_. 0)(0 := 1, 1 := 2, 2 := 5, 3 := 77)) 0 2 10 2 3) 10 2 =
     [16, 233]"
    by (simp add: buffer_def upt_rec numeral_2_eq_2 q15_axpy_ref_def q15_axpy_ref_loop.simps
        axpy_acc_def sat_q15_scalar_def word_sless_alt)
  show "q15_axpy_rvv \<lparr>def_riscv = False, def_riscv_vector = False, riscv_v_intrinsic = 0,
       vlmax_e16m2 = 0, vxrm = RNU, i16m2_as_i32m4 = map scast\<rparr>
     ((\<lambda>_. 0)(0 := 1, 1 := 2, 2 := 5, 3 := 77)) 0 2 10 2 3 =
     Some (q15_axpy_ref ((\<lambda>_. 0)(0 := 1, 1 := 2, 2 := 5, 3 := 77)) 0 2 10 2 3)"
    by (simp add: q15_axpy_rvv_def scalar_fallback_def)
  show "verify_equal ((\<lambda>_. 0)(0 := 1, 1 := 2, 2 := 5, 3 := 77)) 0 2 2 = (0, 75)"
    by (simp add: verify_equal_def verify_equal_loop.simps abs_diff32_def word_sless_alt)
qed

text \<open>
  C8, amended. No argument makes the kernels or the verifier fail, and none of them
  checks the lengths of its buffers. The loops of the scalar kernel and of the verifier
  end for every memory, pointers and count; the vector kernel returns on every platform
  that falls back to the scalar kernel or has \<open>VLMAX > 0\<close>; the verifier's flag is 1 or
  0; and with a count \<open>n \<le> 0\<close> both kernels leave the memory untouched and the
  verifier gives \<open>(1, 0)\<close>.
\<close>

theorem kernels_never_fail:
  assumes "scalar_fallback P \<or> 0 < vlmax_e16m2 P"
  shows "q15_axpy_ref_loop_dom (h, a, b, y, n, alpha, 0) \<and>
         verify_equal_loop_dom (h, r, t, n, 1, 0, 0) \<and>
         (\<exists>h'. q15_axpy_rvv P h a b y n alpha = Some h') \<and>
         fst (verify_equal h r t n) \<in> {0, 1} \<and>
         (n \<le> 0 \<longrightarrow> q15_axpy_ref h a b y n alpha = h \<and>
                   q15_axpy_rvv P h a b y n alpha = Some h \<and>
                   verify_equal h r t n = (1, 0))"
proof (intro conjI impI)
  show "q15_axpy_ref_loop_dom (h, a, b, y, n, alpha, 0)" by (rule ref_loop_dom)
  show "verify_equal_loop_dom (h, r, t, n, 1, 0, 0)" by (rule verify_loop_dom)
  show "\<exists>h'. q15_axpy_rvv P h a b y n alpha = Some h'"
    using rvv_frame [OF assms, of h a b y n alpha] by blast
  show "fst (verify_equal h r t n) \<in> {0, 1}"
    by (simp add: verify_equal_result)
  show "q15_axpy_ref h a b y n alpha = h" if "n \<le> 0"
    using that by (rule ref_nonpos)
  show "q15_axpy_rvv P h a b y n alpha = Some h" if "n \<le> 0"
    using that by (rule rvv_nonpos)
  show "verify_equal h r t n = (1, 0)" if "n \<le> 0"
    using that by (rule verify_nonpos)
qed

theorem kernels_never_fail_witness:
  "(scalar_fallback \<lparr>def_riscv = True, def_riscv_vector = True,
       riscv_v_intrinsic = 1000000, vlmax_e16m2 = 1, vxrm = RDN,
       i16m2_as_i32m4 = map scast\<rparr> \<or>
    0 < vlmax_e16m2 \<lparr>def_riscv = True, def_riscv_vector = True,
       riscv_v_intrinsic = 1000000, vlmax_e16m2 = 1, vxrm = RDN,
       i16m2_as_i32m4 = map scast\<rparr>) \<and>
   q15_axpy_ref_loop_dom ((\<lambda>_. 0)(0 := 1, 1 := 2, 2 := 5, 3 := 77), 0, 2, 10, 2, 3, 0) \<and>
   verify_equal_loop_dom ((\<lambda>_. 0)(0 := 1, 1 := 2, 2 := 5, 3 := 77), 0, 2, 2, 1, 0, 0) \<and>
   (\<exists>h'. q15_axpy_rvv \<lparr>def_riscv = True, def_riscv_vector = True,
       riscv_v_intrinsic = 1000000, vlmax_e16m2 = 1, vxrm = RDN,
       i16m2_as_i32m4 = map scast\<rparr>
       ((\<lambda>_. 0)(0 := 1, 1 := 2, 2 := 5, 3 := 77)) 0 2 10 2 3 = Some h') \<and>
   fst (verify_equal ((\<lambda>_. 0)(0 := 1, 1 := 2, 2 := 5, 3 := 77)) 0 2 2) \<in> {0, 1} \<and>
   (- 1 :: int) \<le> 0 \<and>
   q15_axpy_ref ((\<lambda>_. 0)(0 := 1, 1 := 2, 2 := 5, 3 := 77)) 0 2 10 (- 1) 3 =
     (\<lambda>_. 0)(0 := 1, 1 := 2, 2 := 5, 3 := 77) \<and>
   q15_axpy_rvv \<lparr>def_riscv = True, def_riscv_vector = True,
       riscv_v_intrinsic = 1000000, vlmax_e16m2 = 1, vxrm = RDN,
       i16m2_as_i32m4 = map scast\<rparr>
       ((\<lambda>_. 0)(0 := 1, 1 := 2, 2 := 5, 3 := 77)) 0 2 10 (- 1) 3 =
     Some ((\<lambda>_. 0)(0 := 1, 1 := 2, 2 := 5, 3 := 77)) \<and>
   verify_equal ((\<lambda>_. 0)(0 := 1, 1 := 2, 2 := 5, 3 := 77)) 0 2 (- 1) = (1, 0)"
proof -
  let ?P = "\<lparr>def_riscv = True, def_riscv_vector = True,
       riscv_v_intrinsic = 1000000, vlmax_e16m2 = 1, vxrm = RDN,
       i16m2_as_i32m4 = map scast\<rparr>"
  let ?H = "(\<lambda>_. 0)(0 := 1, 1 := 2, 2 := 5, 3 := 77) :: heap"
  have p: "scalar_fallback ?P \<or> 0 < vlmax_e16m2 ?P" by simp
  have n: "(- 1 :: int) \<le> 0" by simp
  show ?thesis
    using p n kernels_never_fail [OF p, of ?H 0 2 10 2 3 0 2]
      kernels_never_fail [OF p, of ?H 0 2 10 "- 1" 3 0 2]
    by blast
qed

end
